theory Spec2Isabelle
  imports Complex_Main "HOL-Library.Word" "HOL-Library.Signed_Division" "HOL-Library.Sublist"
begin

section \<open>Data model of \<^verbatim>\<open>js-functions.cpp\<close>\<close>

text \<open>
  The three operations of namespace \<^verbatim>\<open>JS\<close> take a \<^verbatim>\<open>const std::vector<Item>&\<close> and a
  \<^verbatim>\<open>std::function\<close>. A vector is a list. The C++ \<^verbatim>\<open>int\<close> of the loop counters and of the
  index handed to the callbacks is a 32-bit two's complement word; \<^verbatim>\<open>std::size_t\<close> is taken
  as 64 bits wide (LP64).

  Callbacks are total functions of their arguments. What the C++ standard leaves
  undefined is an error value of the model, so that every such case is a branch:
  \<^item> \<open>Signed_Overflow\<close>: \<^verbatim>\<open>idx++\<close> at \<^verbatim>\<open>INT_MAX\<close>;
  \<^item> \<open>Out_Of_Range\<close>: \<^verbatim>\<open>values[n]\<close> with \<^verbatim>\<open>n >= values.size()\<close>;
  \<^item> \<open>Indeterminate_Read\<close>: reading an object that was default-initialised without
    an initialiser and never assigned.
\<close>

datatype error = Signed_Overflow | Out_Of_Range | Indeterminate_Read

text \<open>
  The objects a call works on: the caller's vector \<^verbatim>\<open>values\<close>, bound by reference, and the
  local \<^verbatim>\<open>result\<close>.
\<close>

record ('a, 'r) frame =
  "values" :: "'a list"
  result :: "'r"

definition INT_MAX :: "32 word" where
  "INT_MAX = 2147483647"

text \<open>
  \<^verbatim>\<open>idx < values.size()\<close> and \<^verbatim>\<open>values[idx]\<close> convert the \<^verbatim>\<open>int\<close> to \<^verbatim>\<open>std::size_t\<close>:
  sign extension to 64 bits, read as unsigned.
\<close>

definition to_size_t :: "32 word \<Rightarrow> nat" where
  "to_size_t idx = unat (scast idx :: 64 word)"

text \<open>\<^verbatim>\<open>values[idx]\<close>: \<^verbatim>\<open>operator[]\<close> does not check its argument.\<close>

definition subscript :: "'a list \<Rightarrow> 32 word \<Rightarrow> error + 'a" where
  "subscript xs idx =
     (if to_size_t idx < length xs then Inr (xs ! to_size_t idx) else Inl Out_Of_Range)"

section \<open>map\<close>

text \<open>
  \<^verbatim>\<open>
  std::vector<Product> map(const std::vector<Item>& values,
                           std::function<Product(const Item&, int)> converter) {
    std::vector<Product> result;
    for (int idx = 0; idx < values.size(); idx++) {
      result.push_back(converter(values[idx], idx));
    }
    return result;
  }
  \<close>
  The body of the loop, then the loop: one unfolding is one test of the condition, the
  body and the increment \<^verbatim>\<open>idx++\<close>.
\<close>

definition map_with_index_body ::
  "('a \<Rightarrow> 32 word \<Rightarrow> 'b) \<Rightarrow> 32 word \<Rightarrow> ('a, 'b list) frame
     \<Rightarrow> error + ('a, 'b list) frame" where
  "map_with_index_body converter idx s =
     (case subscript (values s) idx of
        Inl e \<Rightarrow> Inl e
      | Inr item \<Rightarrow> Inr (s\<lparr>result := result s @ [converter item idx]\<rparr>))"

function map_with_index_loop ::
  "('a \<Rightarrow> 32 word \<Rightarrow> 'b) \<Rightarrow> 32 word \<Rightarrow> ('a, 'b list) frame
     \<Rightarrow> error + ('a, 'b list) frame" where
  "map_with_index_loop converter idx s =
     (if to_size_t idx < length (values s) then
        (case map_with_index_body converter idx s of
           Inl e \<Rightarrow> Inl e
         | Inr s' \<Rightarrow>
             (if idx = INT_MAX then Inl Signed_Overflow
              else map_with_index_loop converter (idx + 1) s'))
      else Inr s)"
  by pat_completeness auto
termination map_with_index_loop
proof (relation "measure (\<lambda>(converter, idx, s). unat (INT_MAX - idx))", goal_cases)
  case 1
  show ?case by simp
next
  case (2 converter idx s s')
  then have nz: "INT_MAX - idx \<noteq> 0" by simp
  have e1: "INT_MAX - (idx + 1) = (INT_MAX - idx) - 1" by (simp only: diff_diff_eq)
  have e2: "unat ((INT_MAX - idx) - 1) = unat (INT_MAX - idx) - 1"
    using nz by (rule unat_minus_one)
  have e3: "0 < unat (INT_MAX - idx)" using nz by (simp add: unat_gt_0)
  have "unat (INT_MAX - (idx + 1)) < unat (INT_MAX - idx)"
    unfolding e1 e2 using e3 by linarith
  then show ?case by simp
qed

definition map_with_index ::
  "'a list \<Rightarrow> ('a \<Rightarrow> 32 word \<Rightarrow> 'b) \<Rightarrow> error + 'b list" where
  "map_with_index vs converter =
     (case map_with_index_loop converter 0 \<lparr>values = vs, result = []\<rparr> of
        Inl e \<Rightarrow> Inl e
      | Inr s \<Rightarrow> Inr (result s))"

text \<open>
  \<^verbatim>\<open>
  std::vector<Product> map(const std::vector<Item>& values,
                           std::function<Product(const Item&)> converter) {
    std::vector<Product> result;
    for (Item& item : values) result.push_back(converter(item));
    return result;
  }
  \<close>
  The range-based \<^verbatim>\<open>for\<close> visits the elements from \<^verbatim>\<open>begin()\<close> to \<^verbatim>\<open>end()\<close>: recursion over
  the elements still to visit. As written the loop variable is an \<^verbatim>\<open>Item&\<close> bound to an
  element of a \<^verbatim>\<open>const\<close> vector, which no instantiation of the template accepts
  (\<^verbatim>\<open>main\<close> never instantiates this overload); the model follows the loop with the element
  handed to \<^verbatim>\<open>converter\<close> as its \<^verbatim>\<open>const Item&\<close>.
\<close>

fun map_loop :: "('a \<Rightarrow> 'b) \<Rightarrow> 'a list \<Rightarrow> ('a, 'b list) frame \<Rightarrow> ('a, 'b list) frame" where
  "map_loop converter [] s = s"
| "map_loop converter (item # rest) s =
     map_loop converter rest (s\<lparr>result := result s @ [converter item]\<rparr>)"

definition map_without_index :: "'a list \<Rightarrow> ('a \<Rightarrow> 'b) \<Rightarrow> 'b list" where
  "map_without_index vs converter =
     result (map_loop converter vs \<lparr>values = vs, result = []\<rparr>)"

section \<open>filter\<close>

text \<open>
  \<^verbatim>\<open>
  std::vector<Item> filter(const std::vector<Item>& values,
                           std::function<bool(const Item&)> condition) {
    std::vector<Item> result;
    for (const Item& value : values) {
      if (condition(value) == true) result.push_back(value);
    }
    return result;
  }
  \<close>
\<close>

fun filter_loop :: "('a \<Rightarrow> bool) \<Rightarrow> 'a list \<Rightarrow> ('a, 'a list) frame \<Rightarrow> ('a, 'a list) frame" where
  "filter_loop condition [] s = s"
| "filter_loop condition (value # rest) s =
     filter_loop condition rest
       (if condition value = True then s\<lparr>result := result s @ [value]\<rparr> else s)"

definition filter_without_index :: "'a list \<Rightarrow> ('a \<Rightarrow> bool) \<Rightarrow> 'a list" where
  "filter_without_index vs condition =
     result (filter_loop condition vs \<lparr>values = vs, result = []\<rparr>)"

text \<open>
  \<^verbatim>\<open>
  std::vector<Item> filter(const std::vector<Item>& values,
                           std::function<bool(const Item&, int)> condition) {
    std::vector<Item> result;
    for (int idx = 0; idx < values.size(); idx++) {
      if (condition(values[idx], idx) == true) result.push_back(values[idx]);
    }
    return result;
  }
  \<close>
  The body reads \<^verbatim>\<open>values[idx]\<close> once for the condition and once more for \<^verbatim>\<open>push_back\<close>.
\<close>

definition filter_with_index_body ::
  "('a \<Rightarrow> 32 word \<Rightarrow> bool) \<Rightarrow> 32 word \<Rightarrow> ('a, 'a list) frame
     \<Rightarrow> error + ('a, 'a list) frame" where
  "filter_with_index_body condition idx s =
     (case subscript (values s) idx of
        Inl e \<Rightarrow> Inl e
      | Inr item \<Rightarrow>
          (if condition item idx = True then
             (case subscript (values s) idx of
                Inl e \<Rightarrow> Inl e
              | Inr kept \<Rightarrow> Inr (s\<lparr>result := result s @ [kept]\<rparr>))
           else Inr s))"

function filter_with_index_loop ::
  "('a \<Rightarrow> 32 word \<Rightarrow> bool) \<Rightarrow> 32 word \<Rightarrow> ('a, 'a list) frame
     \<Rightarrow> error + ('a, 'a list) frame" where
  "filter_with_index_loop condition idx s =
     (if to_size_t idx < length (values s) then
        (case filter_with_index_body condition idx s of
           Inl e \<Rightarrow> Inl e
         | Inr s' \<Rightarrow>
             (if idx = INT_MAX then Inl Signed_Overflow
              else filter_with_index_loop condition (idx + 1) s'))
      else Inr s)"
  by pat_completeness auto
termination filter_with_index_loop
proof (relation "measure (\<lambda>(condition, idx, s). unat (INT_MAX - idx))", goal_cases)
  case 1
  show ?case by simp
next
  case (2 condition idx s s')
  then have nz: "INT_MAX - idx \<noteq> 0" by simp
  have e1: "INT_MAX - (idx + 1) = (INT_MAX - idx) - 1" by (simp only: diff_diff_eq)
  have e2: "unat ((INT_MAX - idx) - 1) = unat (INT_MAX - idx) - 1"
    using nz by (rule unat_minus_one)
  have e3: "0 < unat (INT_MAX - idx)" using nz by (simp add: unat_gt_0)
  have "unat (INT_MAX - (idx + 1)) < unat (INT_MAX - idx)"
    unfolding e1 e2 using e3 by linarith
  then show ?case by simp
qed

definition filter_with_index ::
  "'a list \<Rightarrow> ('a \<Rightarrow> 32 word \<Rightarrow> bool) \<Rightarrow> error + 'a list" where
  "filter_with_index vs condition =
     (case filter_with_index_loop condition 0 \<lparr>values = vs, result = []\<rparr> of
        Inl e \<Rightarrow> Inl e
      | Inr s \<Rightarrow> Inr (result s))"

section \<open>reduce\<close>

text \<open>
  \<^verbatim>\<open>
  Product reduce(const std::vector<Item>& values,
                 std::function<Product(Product&, const Item&)> reducer) {
    Product result;
    for (const Item& value : values) {
      result = reducer(result, value);
    }
    return result;
  }
  \<close>
  \<^verbatim>\<open>Product result;\<close> is a default-initialisation. For a class type it runs the default
  constructor and the object holds that constructor's value; for a scalar type
  (\<^verbatim>\<open>int\<close>, \<^verbatim>\<open>double\<close>, a pointer) it does nothing and the object is indeterminate until it
  is assigned. What it yields depends on \<^verbatim>\<open>Product\<close> alone, so it is the first argument of
  the model.
\<close>

datatype 'p object = Indeterminate | Value 'p

text \<open>
  The reducer is handed a reference to \<^verbatim>\<open>result\<close>: it sees what the object holds, may
  store into it, and returns a \<^verbatim>\<open>Product\<close>. \<open>Some (returned, referenced)\<close> is the value it
  returns and what it leaves in the referenced object; \<open>None\<close> is a reducer that reads
  the object while it is indeterminate.
\<close>

type_synonym ('p, 'a) reducer = "'p object \<Rightarrow> 'a \<Rightarrow> ('p \<times> 'p object) option"

text \<open>
  \<^verbatim>\<open>result = reducer(result, value)\<close>: the call comes first and leaves \<open>referenced\<close> in
  \<^verbatim>\<open>result\<close>, then the assignment stores the returned value over it.
\<close>

fun reduce_loop ::
  "('p, 'a) reducer \<Rightarrow> 'a list \<Rightarrow> ('a, 'p object) frame \<Rightarrow> error + ('a, 'p object) frame" where
  "reduce_loop reducer [] s = Inr s"
| "reduce_loop reducer (value # rest) s =
     (case reducer (result s) value of
        None \<Rightarrow> Inl Indeterminate_Read
      | Some (returned, referenced) \<Rightarrow>
          reduce_loop reducer rest ((s\<lparr>result := referenced\<rparr>)\<lparr>result := Value returned\<rparr>))"

text \<open>\<^verbatim>\<open>return result;\<close> copies the object, which reads it.\<close>

definition reduce :: "'p object \<Rightarrow> 'a list \<Rightarrow> ('p, 'a) reducer \<Rightarrow> error + 'p" where
  "reduce default_initialized vs reducer =
     (case reduce_loop reducer vs \<lparr>values = vs, result = default_initialized\<rparr> of
        Inl e \<Rightarrow> Inl e
      | Inr s \<Rightarrow>
          (case result s of
             Indeterminate \<Rightarrow> Inl Indeterminate_Read
           | Value product \<Rightarrow> Inr product))"

text \<open>
  Two shapes of callable that \<^verbatim>\<open>std::function<Product(Product&, const Item&)>\<close> wraps.
  \<open>by_value f\<close> takes the accumulator by value, as the lambda of \<^verbatim>\<open>main\<close> does: the call
  copies the referenced object, and leaves it as it was. \<open>by_reference f\<close> takes it by
  reference, reads it, and may store a new value into it: \<open>f\<close> gives the returned value
  and the stored one.
\<close>

definition by_value :: "('p \<Rightarrow> 'a \<Rightarrow> 'p) \<Rightarrow> ('p, 'a) reducer" where
  "by_value f accumulator item =
     (case accumulator of
        Indeterminate \<Rightarrow> None
      | Value a \<Rightarrow> Some (f a item, Value a))"

definition by_reference :: "('p \<Rightarrow> 'a \<Rightarrow> 'p \<times> 'p) \<Rightarrow> ('p, 'a) reducer" where
  "by_reference f accumulator item =
     (case accumulator of
        Indeterminate \<Rightarrow> None
      | Value a \<Rightarrow> Some (fst (f a item), Value (snd (f a item))))"

section \<open>The demonstration program\<close>

text \<open>
  \<^verbatim>\<open>class Person\<close> with its three public fields and its constructor; \<^verbatim>\<open>age\<close> is an \<^verbatim>\<open>int\<close>.
\<close>

datatype Person = Person (firstName: string) (lastName: string) (age: "32 word")

text \<open>\<^verbatim>\<open>std::vector<Person> people\<close> of \<^verbatim>\<open>main\<close>.\<close>

definition people :: "Person list" where
  "people =
     [Person ''Butter'' ''Riolu'' 22,
      Person ''Farmer'' ''Joes'' 21,
      Person ''Juke'' ''Duke'' 21,
      Person ''Life'' ''Happens'' 24,
      Person ''Looped'' ''Needs Help'' 18,
      Person ''Land'' ''Woof'' 21]"

text \<open>
  The four lambdas of \<^verbatim>\<open>main\<close>, in the order they appear.
  \<^verbatim>\<open>[](const Person& dude) -> bool { return dude.age >= 21; }\<close>
\<close>

definition over_21 :: "Person \<Rightarrow> bool" where
  "over_21 dude = (21 \<le>s age dude)"

text \<open>
  \<^verbatim>\<open>[](const Person& dude, int idx) -> bool { return idx % 2 == 0; }\<close>
  The remainder of C++ truncates towards zero and has the sign of the dividend.
\<close>

definition int_rem :: "32 word \<Rightarrow> 32 word \<Rightarrow> 32 word" where
  "int_rem a b = word_of_int (sint a smod sint b)"

definition even_idx :: "Person \<Rightarrow> 32 word \<Rightarrow> bool" where
  "even_idx dude idx = (int_rem idx 2 = 0)"

text \<open>
  \<^verbatim>\<open>std::to_string(int)\<close>: the decimal digits, after a minus sign for a negative number.
\<close>

fun decimal :: "nat \<Rightarrow> string" where
  "decimal n =
     (if n < 10 then [''0123456789'' ! n]
      else decimal (n div 10) @ [''0123456789'' ! (n mod 10)])"

definition to_string :: "32 word \<Rightarrow> string" where
  "to_string n =
     (if sint n < 0 then CHR ''-'' # decimal (nat (- sint n)) else decimal (nat (sint n)))"

text \<open>
  \<^verbatim>\<open>
  [](const Person& dude, int idx) -> std::string {
    std::string position = std::to_string(idx + 1);
    return position + ". " + dude.firstName + " " + dude.lastName;
  }
  \<close>
\<close>

definition position_and_name :: "Person \<Rightarrow> 32 word \<Rightarrow> string" where
  "position_and_name dude idx =
     (let position = to_string (idx + 1)
      in position @ ''. '' @ firstName dude @ '' '' @ lastName dude)"

text \<open>
  \<^verbatim>\<open>[](double totalAge, const Person& dude) -> double { return totalAge + dude.age; }\<close>
  The \<^verbatim>\<open>double\<close> is a real number here: the sums of \<^verbatim>\<open>main\<close> are small integers, which a
  \<^verbatim>\<open>double\<close> holds exactly.
\<close>

definition add_age :: "real \<Rightarrow> Person \<Rightarrow> real" where
  "add_age totalAge dude = totalAge + real_of_int (sint (age dude))"

text \<open>
  The four calls of \<^verbatim>\<open>main\<close>. Each takes the result of the call before it, so an error
  of one is the error of the next. \<^verbatim>\<open>JS::reduce<Person, double>\<close> has \<^verbatim>\<open>Product = double\<close>,
  a scalar type: its \<^verbatim>\<open>Product result;\<close> leaves \<^verbatim>\<open>result\<close> indeterminate.
\<close>

definition canDrinkAlcohol :: "Person list" where
  "canDrinkAlcohol = filter_without_index people over_21"

definition everyEvenPerson :: "error + Person list" where
  "everyEvenPerson = filter_with_index canDrinkAlcohol even_idx"

definition names :: "error + string list" where
  "names =
     (case everyEvenPerson of
        Inl e \<Rightarrow> Inl e
      | Inr persons \<Rightarrow> map_with_index persons position_and_name)"

definition totalAge :: "error + real" where
  "totalAge = reduce Indeterminate people (by_value add_age)"

section \<open>The specification's formulations\<close>

text \<open>
  Section 4.3 of the specification: the accumulation step
  \<^verbatim>\<open>accumulator <- reducer(accumulator, element)\<close>. The accumulator becomes the value the
  reducer returns; a step on a failed accumulation fails.
\<close>

definition accumulate ::
  "('p, 'a) reducer \<Rightarrow> 'p object option \<Rightarrow> 'a \<Rightarrow> 'p object option" where
  "accumulate reducer accumulator element =
     (case accumulator of
        None \<Rightarrow> None
      | Some a \<Rightarrow>
          (case reducer a element of
             None \<Rightarrow> None
           | Some (returned, referenced) \<Rightarrow> Some (Value returned)))"

text \<open>
  Section 9 of the specification: the pure fold, whose reducer takes the accumulator by
  value and returns the new one.
\<close>

fun pure_left_fold :: "('p \<Rightarrow> 'a \<Rightarrow> 'p) \<Rightarrow> 'p \<Rightarrow> 'a list \<Rightarrow> 'p" where
  "pure_left_fold reducer accumulator [] = accumulator"
| "pure_left_fold reducer accumulator (element # rest) =
     pure_left_fold reducer (reducer accumulator element) rest"

text \<open>
  A predicate for the index-aware filter that looks at nothing but the index it is
  handed: it accepts the call whose index is \<open>k\<close>.
\<close>

definition index_is :: "nat \<Rightarrow> 'a \<Rightarrow> 32 word \<Rightarrow> bool" where
  "index_is k item idx = (sint idx = int k)"

section \<open>The loops, step by step\<close>

text \<open>
  The defining equations of the two counted loops unfold for ever under the simplifier:
  they are used one step at a time.
\<close>

declare map_with_index_loop.simps [simp del]
declare filter_with_index_loop.simps [simp del]

subsection \<open>The counter as a number\<close>

text \<open>
  A position \<open>k\<close> up to \<^verbatim>\<open>INT_MAX\<close> is the \<^verbatim>\<open>int\<close> \<open>of_nat k\<close>, and converting that \<^verbatim>\<open>int\<close> to
  \<^verbatim>\<open>std::size_t\<close> gives \<open>k\<close> back.
\<close>

lemma sint_of_nat_idx: "k \<le> 2147483647 \<Longrightarrow> sint (of_nat k :: 32 word) = int k"
  by (simp add: signed_of_nat signed_take_bit_int_eq_self)

lemma to_size_t_of_nat: "k \<le> 2147483647 \<Longrightarrow> to_size_t (of_nat k) = k"
proof -
  assume k: "k \<le> 2147483647"
  have "(scast (of_nat k :: 32 word) :: 64 word) = word_of_int (sint (of_nat k :: 32 word))"
    by (rule scast_eq)
  also have "\<dots> = of_nat k"
    using k by (simp only: sint_of_nat_idx word_of_int_nat of_int_of_nat_eq)
  finally show ?thesis using k by (simp add: to_size_t_def unat_of_nat)
qed

lemma of_nat_eq_INT_MAX:
  "k \<le> 2147483647 \<Longrightarrow> (of_nat k = INT_MAX) = (k = 2147483647)"
proof
  assume k: "k \<le> 2147483647" and "of_nat k = INT_MAX"
  then have "unat (of_nat k :: 32 word) = unat INT_MAX" by simp
  then show "k = 2147483647" using k by (simp add: unat_of_nat INT_MAX_def)
next
  assume "k = 2147483647"
  then show "of_nat k = INT_MAX" by (simp add: INT_MAX_def)
qed

lemma subscript_of_nat:
  "k < length xs \<Longrightarrow> k \<le> 2147483647 \<Longrightarrow> subscript xs (of_nat k) = Inr (xs ! k)"
  by (simp add: subscript_def to_size_t_of_nat)

subsection \<open>The counted loop of map\<close>

lemma of_nat_Suc_idx: "(of_nat (Suc k) :: 32 word) = of_nat k + 1"
  by simp

lemma map_with_index_loop_exit:
  assumes "k = length (values s)" and "k \<le> 2147483647"
  shows "map_with_index_loop converter (of_nat k) s = Inr s"
proof -
  have "to_size_t (of_nat k) = k" using assms(2) by (rule to_size_t_of_nat)
  then have "\<not> to_size_t (of_nat k) < length (values s)" using assms(1) by simp
  then show ?thesis by (subst map_with_index_loop.simps) (simp only: if_False)
qed

lemma map_with_index_loop_step:
  assumes "k < length (values s)" and "k < 2147483647"
  shows "map_with_index_loop converter (of_nat k) s =
     map_with_index_loop converter (of_nat (Suc k))
       (s\<lparr>result := result s @ [converter (values s ! k) (of_nat k)]\<rparr>)"
proof -
  have t: "to_size_t (of_nat k) < length (values s)"
    using assms by (simp add: to_size_t_of_nat)
  have b: "map_with_index_body converter (of_nat k) s =
      Inr (s\<lparr>result := result s @ [converter (values s ! k) (of_nat k)]\<rparr>)"
    using assms by (simp add: map_with_index_body_def subscript_of_nat)
  have ne: "(of_nat k = INT_MAX) = False"
    using assms(2) by (simp add: of_nat_eq_INT_MAX)
  show ?thesis
    by (subst map_with_index_loop.simps)
       (simp only: t b ne if_True if_False sum.case of_nat_Suc_idx)
qed

lemma map_with_index_loop_last:
  assumes "k < length (values s)" and "k = 2147483647"
  shows "map_with_index_loop converter (of_nat k) s = Inl Signed_Overflow"
proof -
  have le: "k \<le> 2147483647" using assms(2) by simp
  have t: "to_size_t (of_nat k) < length (values s)"
    using assms(1) le by (simp only: to_size_t_of_nat)
  have b: "map_with_index_body converter (of_nat k) s =
      Inr (s\<lparr>result := result s @ [converter (values s ! k) (of_nat k)]\<rparr>)"
    using assms(1) le by (simp only: map_with_index_body_def subscript_of_nat sum.case)
  have "of_nat k = INT_MAX"
    using of_nat_eq_INT_MAX [OF le] assms(2) by blast
  then have eq: "(of_nat k = INT_MAX) = True" by (rule eqTrueI)
  show ?thesis
    by (subst map_with_index_loop.simps) (simp only: t b eq if_True sum.case)
qed

lemma map_with_index_loop_run:
  "length (values s) \<le> 2147483647 \<Longrightarrow> k \<le> length (values s) \<Longrightarrow>
     map_with_index_loop converter (of_nat k) s =
       Inr (s\<lparr>result := result s @
                map (\<lambda>i. converter (values s ! i) (of_nat i)) [k..<length (values s)]\<rparr>)"
proof (induction "length (values s) - k" arbitrary: k s)
  case 0
  then have "k = length (values s)" and "k \<le> 2147483647" by simp_all
  then have "map_with_index_loop converter (of_nat k) s = Inr s"
    by (rule map_with_index_loop_exit)
  with \<open>k = length (values s)\<close> show ?case by simp
next
  case (Suc n)
  then have lt: "k < length (values s)" and le: "k < 2147483647" by simp_all
  let ?s' = "s\<lparr>result := result s @ [converter (values s ! k) (of_nat k)]\<rparr>"
  have step: "map_with_index_loop converter (of_nat k) s =
      map_with_index_loop converter (of_nat (Suc k)) ?s'"
    using lt le by (rule map_with_index_loop_step)
  have "n = length (values ?s') - Suc k" using Suc.hyps(2) by simp
  moreover have "length (values ?s') \<le> 2147483647" using Suc.prems(1) by simp
  moreover have "Suc k \<le> length (values ?s')" using lt by simp
  ultimately have "map_with_index_loop converter (of_nat (Suc k)) ?s' =
      Inr (?s'\<lparr>result := result ?s' @
             map (\<lambda>i. converter (values ?s' ! i) (of_nat i)) [Suc k..<length (values ?s')]\<rparr>)"
    by (rule Suc.hyps(1))
  then show ?case unfolding step using lt by (simp add: upt_conv_Cons)
qed

lemma map_with_index_loop_overflow:
  "2147483647 < length (values s) \<Longrightarrow> k \<le> 2147483647 \<Longrightarrow>
     map_with_index_loop converter (of_nat k) s = Inl Signed_Overflow"
proof (induction "2147483647 - k" arbitrary: k s)
  case 0
  then have "k < length (values s)" and "k = 2147483647" by simp_all
  then show ?case by (rule map_with_index_loop_last)
next
  case (Suc n)
  then have lt: "k < length (values s)" and le: "k < 2147483647" by simp_all
  let ?s' = "s\<lparr>result := result s @ [converter (values s ! k) (of_nat k)]\<rparr>"
  have step: "map_with_index_loop converter (of_nat k) s =
      map_with_index_loop converter (of_nat (Suc k)) ?s'"
    using lt le by (rule map_with_index_loop_step)
  have "n = 2147483647 - Suc k" using Suc.hyps(2) by simp
  moreover have "2147483647 < length (values ?s')" using Suc.prems(1) by simp
  moreover have "Suc k \<le> 2147483647" using le by simp
  ultimately have "map_with_index_loop converter (of_nat (Suc k)) ?s' = Inl Signed_Overflow"
    by (rule Suc.hyps(1))
  then show ?case unfolding step .
qed

lemma map_with_index_loop_values:
  "map_with_index_loop converter idx s = Inr s' \<Longrightarrow> values s' = values s"
proof (induction converter idx s rule: map_with_index_loop.induct)
  case (1 converter idx s)
  show ?case
  proof (cases "to_size_t idx < length (values s)")
    case False
    with "1.prems" show ?thesis by (subst (asm) map_with_index_loop.simps) simp
  next
    case True
    with "1.prems" obtain t where
      body: "map_with_index_body converter idx s = Inr t" and ne: "idx \<noteq> INT_MAX"
      and rest: "map_with_index_loop converter (idx + 1) t = Inr s'"
      by (subst (asm) map_with_index_loop.simps) (auto split: sum.splits if_splits)
    from body have "values t = values s"
      by (auto simp add: map_with_index_body_def split: sum.splits)
    moreover have "values s' = values t"
      using True body ne rest by (rule "1.IH")
    ultimately show ?thesis by simp
  qed
qed

lemma map_with_index_loop_in_range:
  "map_with_index_loop converter idx s \<noteq> Inl Out_Of_Range"
proof (induction converter idx s rule: map_with_index_loop.induct)
  case (1 converter idx s)
  show ?case
  proof (cases "to_size_t idx < length (values s)")
    case False
    then show ?thesis by (subst map_with_index_loop.simps) simp
  next
    case True
    then obtain t where body: "map_with_index_body converter idx s = Inr t"
      by (simp add: map_with_index_body_def subscript_def)
    show ?thesis
    proof (cases "idx = INT_MAX")
      case True
      with \<open>to_size_t idx < length (values s)\<close> body show ?thesis
        by (subst map_with_index_loop.simps) simp
    next
      case False
      with \<open>to_size_t idx < length (values s)\<close> body
      have "map_with_index_loop converter (idx + 1) t \<noteq> Inl Out_Of_Range"
        by (rule "1.IH")
      with \<open>to_size_t idx < length (values s)\<close> body False show ?thesis
        by (subst map_with_index_loop.simps) simp
    qed
  qed
qed


subsection \<open>The counted loop of filter\<close>

lemma filter_with_index_body_of_nat:
  assumes "k < length (values s)" and "k \<le> 2147483647"
  shows "filter_with_index_body condition (of_nat k) s =
     Inr (if condition (values s ! k) (of_nat k)
          then s\<lparr>result := result s @ [values s ! k]\<rparr> else s)"
  using assms by (simp add: filter_with_index_body_def subscript_of_nat)

lemma filter_with_index_loop_exit:
  assumes "k = length (values s)" and "k \<le> 2147483647"
  shows "filter_with_index_loop condition (of_nat k) s = Inr s"
proof -
  have "to_size_t (of_nat k) = k" using assms(2) by (rule to_size_t_of_nat)
  then have "\<not> to_size_t (of_nat k) < length (values s)" using assms(1) by simp
  then show ?thesis by (subst filter_with_index_loop.simps) (simp only: if_False)
qed

lemma filter_with_index_loop_step:
  assumes "k < length (values s)" and "k < 2147483647"
  shows "filter_with_index_loop condition (of_nat k) s =
     filter_with_index_loop condition (of_nat (Suc k))
       (if condition (values s ! k) (of_nat k)
        then s\<lparr>result := result s @ [values s ! k]\<rparr> else s)"
proof -
  have t: "to_size_t (of_nat k) < length (values s)"
    using assms by (simp add: to_size_t_of_nat)
  have b: "filter_with_index_body condition (of_nat k) s =
      Inr (if condition (values s ! k) (of_nat k)
           then s\<lparr>result := result s @ [values s ! k]\<rparr> else s)"
    using assms by (simp only: filter_with_index_body_of_nat less_imp_le)
  have ne: "(of_nat k = INT_MAX) = False"
    using assms(2) by (simp add: of_nat_eq_INT_MAX)
  show ?thesis
    by (subst filter_with_index_loop.simps)
       (simp only: t b ne if_True if_False sum.case of_nat_Suc_idx)
qed

lemma filter_with_index_loop_last:
  assumes "k < length (values s)" and "k = 2147483647"
  shows "filter_with_index_loop condition (of_nat k) s = Inl Signed_Overflow"
proof -
  have le: "k \<le> 2147483647" using assms(2) by simp
  have t: "to_size_t (of_nat k) < length (values s)"
    using assms(1) le by (simp only: to_size_t_of_nat)
  have b: "filter_with_index_body condition (of_nat k) s =
      Inr (if condition (values s ! k) (of_nat k)
           then s\<lparr>result := result s @ [values s ! k]\<rparr> else s)"
    using assms(1) le by (rule filter_with_index_body_of_nat)
  have "of_nat k = INT_MAX"
    using of_nat_eq_INT_MAX [OF le] assms(2) by blast
  then have eq: "(of_nat k = INT_MAX) = True" by (rule eqTrueI)
  show ?thesis
    by (subst filter_with_index_loop.simps) (simp only: t b eq if_True sum.case)
qed

lemma filter_with_index_loop_run:
  "length (values s) \<le> 2147483647 \<Longrightarrow> k \<le> length (values s) \<Longrightarrow>
     filter_with_index_loop condition (of_nat k) s =
       Inr (s\<lparr>result := result s @
                map (\<lambda>i. values s ! i)
                  (filter (\<lambda>i. condition (values s ! i) (of_nat i))
                     [k..<length (values s)])\<rparr>)"
proof (induction "length (values s) - k" arbitrary: k s)
  case 0
  then have "k = length (values s)" and "k \<le> 2147483647" by simp_all
  then have "filter_with_index_loop condition (of_nat k) s = Inr s"
    by (rule filter_with_index_loop_exit)
  with \<open>k = length (values s)\<close> show ?case by simp
next
  case (Suc n)
  then have lt: "k < length (values s)" and le: "k < 2147483647" by simp_all
  let ?s' = "if condition (values s ! k) (of_nat k)
             then s\<lparr>result := result s @ [values s ! k]\<rparr> else s"
  have vs: "values ?s' = values s" by simp
  have step: "filter_with_index_loop condition (of_nat k) s =
      filter_with_index_loop condition (of_nat (Suc k)) ?s'"
    using lt le by (rule filter_with_index_loop_step)
  have "n = length (values ?s') - Suc k" using Suc.hyps(2) by simp
  moreover have "length (values ?s') \<le> 2147483647" using Suc.prems(1) by simp
  moreover have "Suc k \<le> length (values ?s')" using lt by simp
  ultimately have "filter_with_index_loop condition (of_nat (Suc k)) ?s' =
      Inr (?s'\<lparr>result := result ?s' @
             map (\<lambda>i. values ?s' ! i)
               (filter (\<lambda>i. condition (values ?s' ! i) (of_nat i))
                  [Suc k..<length (values ?s')])\<rparr>)"
    by (rule Suc.hyps(1))
  then show ?case unfolding step using lt by (simp add: upt_conv_Cons)
qed

lemma filter_with_index_loop_overflow:
  "2147483647 < length (values s) \<Longrightarrow> k \<le> 2147483647 \<Longrightarrow>
     filter_with_index_loop condition (of_nat k) s = Inl Signed_Overflow"
proof (induction "2147483647 - k" arbitrary: k s)
  case 0
  then have "k < length (values s)" and "k = 2147483647" by simp_all
  then show ?case by (rule filter_with_index_loop_last)
next
  case (Suc n)
  then have lt: "k < length (values s)" and le: "k < 2147483647" by simp_all
  let ?s' = "if condition (values s ! k) (of_nat k)
             then s\<lparr>result := result s @ [values s ! k]\<rparr> else s"
  have step: "filter_with_index_loop condition (of_nat k) s =
      filter_with_index_loop condition (of_nat (Suc k)) ?s'"
    using lt le by (rule filter_with_index_loop_step)
  have "n = 2147483647 - Suc k" using Suc.hyps(2) by simp
  moreover have "2147483647 < length (values ?s')" using Suc.prems(1) by simp
  moreover have "Suc k \<le> 2147483647" using le by simp
  ultimately have "filter_with_index_loop condition (of_nat (Suc k)) ?s' = Inl Signed_Overflow"
    by (rule Suc.hyps(1))
  then show ?case unfolding step .
qed

lemma filter_with_index_body_values:
  "filter_with_index_body condition idx s = Inr t \<Longrightarrow> values t = values s"
  by (auto simp add: filter_with_index_body_def split: sum.splits if_splits)

lemma filter_with_index_body_in_range:
  "to_size_t idx < length (values s) \<Longrightarrow> \<exists>t. filter_with_index_body condition idx s = Inr t"
  by (simp add: filter_with_index_body_def subscript_def)

lemma filter_with_index_loop_values:
  "filter_with_index_loop condition idx s = Inr s' \<Longrightarrow> values s' = values s"
proof (induction condition idx s rule: filter_with_index_loop.induct)
  case (1 condition idx s)
  show ?case
  proof (cases "to_size_t idx < length (values s)")
    case False
    with "1.prems" show ?thesis by (subst (asm) filter_with_index_loop.simps) simp
  next
    case True
    with "1.prems" obtain t where
      body: "filter_with_index_body condition idx s = Inr t" and ne: "idx \<noteq> INT_MAX"
      and rest: "filter_with_index_loop condition (idx + 1) t = Inr s'"
      by (subst (asm) filter_with_index_loop.simps) (auto split: sum.splits if_splits)
    from body have "values t = values s" by (rule filter_with_index_body_values)
    moreover have "values s' = values t"
      using True body ne rest by (rule "1.IH")
    ultimately show ?thesis by simp
  qed
qed

lemma filter_with_index_loop_in_range:
  "filter_with_index_loop condition idx s \<noteq> Inl Out_Of_Range"
proof (induction condition idx s rule: filter_with_index_loop.induct)
  case (1 condition idx s)
  show ?case
  proof (cases "to_size_t idx < length (values s)")
    case False
    then show ?thesis by (subst filter_with_index_loop.simps) simp
  next
    case True
    then obtain t where body: "filter_with_index_body condition idx s = Inr t"
      using filter_with_index_body_in_range by blast
    show ?thesis
    proof (cases "idx = INT_MAX")
      case True
      with \<open>to_size_t idx < length (values s)\<close> body show ?thesis
        by (subst filter_with_index_loop.simps) simp
    next
      case False
      with \<open>to_size_t idx < length (values s)\<close> body
      have "filter_with_index_loop condition (idx + 1) t \<noteq> Inl Out_Of_Range"
        by (rule "1.IH")
      with \<open>to_size_t idx < length (values s)\<close> body False show ?thesis
        by (subst filter_with_index_loop.simps) simp
    qed
  qed
qed

subsection \<open>The range-based loops\<close>

lemma map_loop_eq:
  "map_loop converter xs s = s\<lparr>result := result s @ map converter xs\<rparr>"
  by (induction xs arbitrary: s) simp_all

lemma filter_loop_eq:
  "filter_loop condition xs s = s\<lparr>result := result s @ filter condition xs\<rparr>"
  by (induction xs arbitrary: s) simp_all

lemma reduce_loop_values:
  "reduce_loop reducer xs s = Inr s' \<Longrightarrow> values s' = values s"
proof (induction xs arbitrary: s)
  case Nil
  then show ?case by simp
next
  case (Cons x xs)
  then show ?case by (auto split: option.splits)
qed

lemma reduce_loop_error:
  "reduce_loop reducer xs s = Inl e \<Longrightarrow> e = Indeterminate_Read"
  by (induction xs arbitrary: s) (auto split: option.splits)

subsection \<open>The loop of reduce\<close>

lemma accumulate_None: "accumulate reducer None x = None"
  by (simp add: accumulate_def)

lemma accumulate_Some:
  "accumulate reducer (Some a) x =
     (case reducer a x of None \<Rightarrow> None | Some (returned, referenced) \<Rightarrow> Some (Value returned))"
  by (simp add: accumulate_def)

lemma by_value_Indeterminate: "by_value f Indeterminate x = None"
  by (simp add: by_value_def)

lemma by_value_Value: "by_value f (Value a) x = Some (f a x, Value a)"
  by (simp add: by_value_def)

lemma by_reference_Indeterminate: "by_reference f Indeterminate x = None"
  by (simp add: by_reference_def)

lemma by_reference_Value:
  "by_reference f (Value a) x = Some (fst (f a x), Value (snd (f a x)))"
  by (simp add: by_reference_def)

lemma foldl_accumulate_None: "foldl (accumulate reducer) None xs = None"
  by (induction xs) (simp_all add: accumulate_None)

lemma reduce_loop_fold:
  "(case reduce_loop reducer xs s of Inl e \<Rightarrow> None | Inr s' \<Rightarrow> Some (result s')) =
     foldl (accumulate reducer) (Some (result s)) xs"
proof (induction xs arbitrary: s)
  case Nil
  show ?case by simp
next
  case (Cons x xs)
  show ?case
  proof (cases "reducer (result s) x")
    case None
    then show ?thesis by (simp add: accumulate_Some foldl_accumulate_None)
  next
    case (Some pair)
    obtain returned referenced where pair: "pair = (returned, referenced)" by (cases pair)
    let ?s' = "(s\<lparr>result := referenced\<rparr>)\<lparr>result := Value returned\<rparr>"
    have "(case reduce_loop reducer xs ?s' of Inl e \<Rightarrow> None | Inr s' \<Rightarrow> Some (result s')) =
        foldl (accumulate reducer) (Some (result ?s')) xs"
      by (rule Cons.IH)
    with Some pair show ?thesis by (simp add: accumulate_Some)
  qed
qed

lemma reduce_loop_by_value:
  "result s = Value a \<Longrightarrow>
     reduce_loop (by_value f) xs s = Inr (s\<lparr>result := Value (foldl f a xs)\<rparr>)"
proof (induction xs arbitrary: s a)
  case Nil
  then show ?case by (cases s) simp
next
  case (Cons x xs)
  let ?s' = "(s\<lparr>result := Value a\<rparr>)\<lparr>result := Value (f a x)\<rparr>"
  have "reduce_loop (by_value f) xs ?s' = Inr (?s'\<lparr>result := Value (foldl f (f a x) xs)\<rparr>)"
    by (rule Cons.IH) simp
  with Cons.prems show ?case by (simp add: by_value_Value)
qed

lemma reduce_loop_by_reference:
  "result s = Value a \<Longrightarrow>
     reduce_loop (by_reference f) xs s =
       Inr (s\<lparr>result := Value (pure_left_fold (\<lambda>a x. fst (f a x)) a xs)\<rparr>)"
proof (induction xs arbitrary: s a)
  case Nil
  then show ?case by (cases s) simp
next
  case (Cons x xs)
  let ?s' = "(s\<lparr>result := Value (snd (f a x))\<rparr>)\<lparr>result := Value (fst (f a x))\<rparr>"
  have "reduce_loop (by_reference f) xs ?s' =
      Inr (?s'\<lparr>result := Value (pure_left_fold (\<lambda>a x. fst (f a x)) (fst (f a x)) xs)\<rparr>)"
    by (rule Cons.IH) simp
  with Cons.prems show ?case by (simp add: by_reference_Value)
qed

lemma pure_left_fold_foldl: "pure_left_fold r a xs = foldl r a xs"
  by (induction xs arbitrary: a) simp_all

lemma reduce_by_value: "reduce (Value d) vs (by_value f) = Inr (foldl f d vs)"
  by (simp add: reduce_def reduce_loop_by_value)

lemma reduce_Indeterminate_reading:
  assumes "\<And>x. reducer Indeterminate x = None"
  shows "reduce Indeterminate vs reducer = Inl Indeterminate_Read"
  using assms by (cases vs) (simp_all add: reduce_def)

subsection \<open>The operations in closed form\<close>

lemma map_with_index_eq:
  assumes "length vs \<le> 2147483647"
  shows "map_with_index vs converter =
     Inr (map (\<lambda>i. converter (vs ! i) (of_nat i)) [0..<length vs])"
proof -
  let ?s = "\<lparr>values = vs, result = []\<rparr> :: ('a, 'b list) frame"
  have "map_with_index_loop converter (of_nat 0) ?s =
      Inr (?s\<lparr>result := result ?s @
             map (\<lambda>i. converter (values ?s ! i) (of_nat i)) [0..<length (values ?s)]\<rparr>)"
    using assms by (intro map_with_index_loop_run) simp_all
  then show ?thesis by (simp add: map_with_index_def)
qed

lemma map_with_index_overflow:
  assumes "2147483647 < length vs"
  shows "map_with_index vs converter = Inl Signed_Overflow"
proof -
  let ?s = "\<lparr>values = vs, result = []\<rparr> :: ('a, 'b list) frame"
  have "map_with_index_loop converter (of_nat 0) ?s = Inl Signed_Overflow"
    using assms by (intro map_with_index_loop_overflow) simp_all
  then show ?thesis by (simp add: map_with_index_def)
qed

lemma filter_with_index_eq:
  assumes "length vs \<le> 2147483647"
  shows "filter_with_index vs condition =
     Inr (map (\<lambda>i. vs ! i) (filter (\<lambda>i. condition (vs ! i) (of_nat i)) [0..<length vs]))"
proof -
  let ?s = "\<lparr>values = vs, result = []\<rparr> :: ('a, 'a list) frame"
  have "filter_with_index_loop condition (of_nat 0) ?s =
      Inr (?s\<lparr>result := result ?s @
             map (\<lambda>i. values ?s ! i)
               (filter (\<lambda>i. condition (values ?s ! i) (of_nat i)) [0..<length (values ?s)])\<rparr>)"
    using assms by (intro filter_with_index_loop_run) simp_all
  then show ?thesis by (simp add: filter_with_index_def)
qed

lemma filter_with_index_overflow:
  assumes "2147483647 < length vs"
  shows "filter_with_index vs condition = Inl Signed_Overflow"
proof -
  let ?s = "\<lparr>values = vs, result = []\<rparr> :: ('a, 'a list) frame"
  have "filter_with_index_loop condition (of_nat 0) ?s = Inl Signed_Overflow"
    using assms by (intro filter_with_index_loop_overflow) simp_all
  then show ?thesis by (simp add: filter_with_index_def)
qed

lemma map_without_index_eq: "map_without_index vs converter = map converter vs"
  by (simp add: map_without_index_def map_loop_eq)

lemma filter_without_index_eq: "filter_without_index vs condition = filter condition vs"
  by (simp add: filter_without_index_def filter_loop_eq)

text \<open>
  On the three records that the second call of \<^verbatim>\<open>main\<close> returns, the index-aware filter
  with the same predicate keeps two: applying it twice is not applying it once.
\<close>

lemma filter_with_index_again:
  "filter_with_index
     [Person ''Butter'' ''Riolu'' 22, Person ''Juke'' ''Duke'' 21, Person ''Land'' ''Woof'' 21]
     even_idx =
   Inr [Person ''Butter'' ''Riolu'' 22, Person ''Land'' ''Woof'' 21]"
  by code_simp

subsection \<open>Positions of a list\<close>

lemma subseq_picked: "subseq (map (\<lambda>i. vs ! i) (filter P [0..<length vs])) vs"
proof -
  have "subseq (map (\<lambda>i. vs ! i) (filter P [0..<length vs])) (map (\<lambda>i. vs ! i) [0..<length vs])"
    by (intro subseq_map subseq_filter_left)
  then show ?thesis by (simp add: map_nth)
qed

lemma zip_positions: "zip vs [0..<length vs] = map (\<lambda>i. (vs ! i, i)) [0..<length vs]"
proof -
  have "zip vs [0..<length vs] = zip (map (\<lambda>i. vs ! i) [0..<length vs]) [0..<length vs]"
    by (simp add: map_nth)
  also have "\<dots> = map (\<lambda>i. (vs ! i, i)) [0..<length vs]"
    by (simp add: zip_map1 zip_same_conv_map)
  finally show ?thesis .
qed

lemma filter_position_is: "filter (\<lambda>i. i = k) [0..<n] = (if k < n then [k] else [])"
  by (induction n) auto

section \<open>Claims\<close>

text \<open>
  C1, as amended. For every sequence \<open>vs\<close> of length \<open>N\<close> at most \<^verbatim>\<open>INT_MAX\<close> = 2147483647 and
  every index-aware transform, \<^verbatim>\<open>map\<close> returns a sequence of length exactly \<open>N\<close> whose
  \<open>i\<close>-th element is the transform of \<open>vs ! i\<close> and of the \<^verbatim>\<open>int\<close> of value \<open>i\<close>, for every
  \<open>i < N\<close>; the empty sequence gives the empty sequence. (The loop of the element-only
  overload, read as in the section on \<^verbatim>\<open>map\<close>, is \<open>map_without_index_eq\<close>.)
\<close>

theorem map_with_index_elements:
  "length vs \<le> 2147483647 \<Longrightarrow>
     (\<exists>out. map_with_index vs converter = Inr out \<and> length out = length vs \<and>
        (\<forall>i < length vs.
           out ! i = converter (vs ! i) (of_nat i) \<and> sint (of_nat i :: 32 word) = int i))
     \<and> map_with_index [] converter = Inr []"
proof -
  assume le: "length vs \<le> 2147483647"
  let ?out = "map (\<lambda>i. converter (vs ! i) (of_nat i)) [0..<length vs]"
  have "map_with_index vs converter = Inr ?out" using le by (rule map_with_index_eq)
  moreover have "length ?out = length vs" by simp
  moreover have "\<forall>i < length vs.
      ?out ! i = converter (vs ! i) (of_nat i) \<and> sint (of_nat i :: 32 word) = int i"
    using le by (simp add: sint_of_nat_idx)
  moreover have "map_with_index [] converter = Inr []"
    using map_with_index_eq [of "[]" converter] by simp
  ultimately show ?thesis by blast
qed

text \<open>C1 at the six records of \<^verbatim>\<open>main\<close>, with the fourth lambda of \<^verbatim>\<open>main\<close>.\<close>

theorem map_with_index_elements_witness:
  "length people \<le> 2147483647 \<and>
   (\<exists>out. map_with_index people position_and_name = Inr out \<and> length out = 6 \<and>
      out ! 5 = ''6. Land Woof'')"
proof -
  have le: "length people \<le> 2147483647" by (simp add: people_def)
  have p5: "position_and_name (people ! 5) (of_nat 5) = ''6. Land Woof''" by code_simp
  have len: "length people = 6" by (simp add: people_def)
  from map_with_index_elements [OF le, of position_and_name]
  obtain out where "map_with_index people position_and_name = Inr out"
    and "length out = length people"
    and "\<forall>i < length people. out ! i = position_and_name (people ! i) (of_nat i)"
    by blast
  then have "map_with_index people position_and_name = Inr out \<and> length out = 6 \<and>
      out ! 5 = ''6. Land Woof''"
    using p5 len by simp
  with le show ?thesis by blast
qed

text \<open>
  C1 as stated fails on a sequence of 2147483649 elements: the counter is an \<^verbatim>\<open>int\<close>, and
  \<^verbatim>\<open>idx++\<close> at \<^verbatim>\<open>INT_MAX\<close> is undefined before the loop has seen every element. (A counter
  that wrapped around to \<^verbatim>\<open>INT_MIN\<close> would convert to a \<^verbatim>\<open>std::size_t\<close> above the size and end
  the loop after 2147483648 elements, one short of the input.)
\<close>

theorem map_with_index_oversized:
  "map_with_index (replicate 2147483649 (Person ''Butter'' ''Riolu'' 22)) position_and_name =
     Inl Signed_Overflow"
  by (rule map_with_index_overflow) (simp only: length_replicate)

text \<open>
  C2, as amended. For every sequence \<open>vs\<close> and predicate \<open>p\<close>, the element-only \<^verbatim>\<open>filter\<close>
  returns exactly the elements of \<open>vs\<close> for which \<open>p\<close> is true, in their original relative
  order: its length is at most that of \<open>vs\<close> and every element of it satisfies \<open>p\<close>. For
  every sequence \<open>vs\<close> of at most \<^verbatim>\<open>INT_MAX\<close> = 2147483647 elements and predicate \<open>q\<close>, the
  index-aware \<^verbatim>\<open>filter\<close> returns exactly the elements at the positions \<open>i\<close> for which \<open>q\<close> is
  true of the element and \<open>i\<close>, in their original relative order, and its length is at
  most that of \<open>vs\<close>.
\<close>

theorem filter_keeps_the_accepted:
  "filter_without_index vs p = filter p vs
   \<and> length (filter_without_index vs p) \<le> length vs
   \<and> (\<forall>x \<in> set (filter_without_index vs p). p x)
   \<and> subseq (filter_without_index vs p) vs
   \<and> (length vs \<le> 2147483647 \<longrightarrow>
        (\<exists>out. filter_with_index vs q = Inr out
           \<and> out = map (\<lambda>i. vs ! i) (filter (\<lambda>i. q (vs ! i) (of_nat i)) [0..<length vs])
           \<and> length out \<le> length vs
           \<and> subseq out vs))"
proof -
  have a: "filter_without_index vs p = filter p vs" by (rule filter_without_index_eq)
  have b: "length (filter p vs) \<le> length vs" by simp
  have c: "\<forall>x \<in> set (filter p vs). p x" by simp
  have d: "subseq (filter p vs) vs" by simp
  have e: "length vs \<le> 2147483647 \<longrightarrow>
        (\<exists>out. filter_with_index vs q = Inr out
           \<and> out = map (\<lambda>i. vs ! i) (filter (\<lambda>i. q (vs ! i) (of_nat i)) [0..<length vs])
           \<and> length out \<le> length vs
           \<and> subseq out vs)"
  proof
    assume le: "length vs \<le> 2147483647"
    let ?out = "map (\<lambda>i. vs ! i) (filter (\<lambda>i. q (vs ! i) (of_nat i)) [0..<length vs])"
    have "filter_with_index vs q = Inr ?out" using le by (rule filter_with_index_eq)
    moreover have "subseq ?out vs" by (rule subseq_picked)
    moreover have "length ?out \<le> length vs" by (simp add: le_trans [OF length_filter_le])
    ultimately show "\<exists>out. filter_with_index vs q = Inr out
           \<and> out = ?out \<and> length out \<le> length vs \<and> subseq out vs"
      by blast
  qed
  from b c d e show ?thesis by (simp only: a)
qed

text \<open>
  C2 at the six records of \<^verbatim>\<open>main\<close>, with the first and the second lambda of \<^verbatim>\<open>main\<close>.
\<close>

theorem filter_keeps_the_accepted_witness:
  "map age (filter_without_index people over_21) = [22, 21, 21, 24, 21]
   \<and> length people \<le> 2147483647
   \<and> filter_with_index people even_idx = Inr [people ! 0, people ! 2, people ! 4]"
proof -
  have le: "length people \<le> 2147483647" by (simp add: people_def)
  have ages: "map age (filter over_21 people) = [22, 21, 21, 24, 21]" by code_simp
  have picks: "map (\<lambda>i. people ! i)
      (filter (\<lambda>i. even_idx (people ! i) (of_nat i)) [0..<length people]) =
      [people ! 0, people ! 2, people ! 4]"
    by code_simp
  from filter_keeps_the_accepted [of people over_21 even_idx] le
  have "filter_without_index people over_21 = filter over_21 people"
    and "filter_with_index people even_idx =
      Inr (map (\<lambda>i. people ! i)
        (filter (\<lambda>i. even_idx (people ! i) (of_nat i)) [0..<length people]))"
    by blast+
  with le picks ages show ?thesis by simp
qed

text \<open>
  C2 as stated fails for the index-aware \<^verbatim>\<open>filter\<close> on a sequence of 2147483649 elements:
  the counter overflows before the loop has seen every element, and no sequence is
  returned.
\<close>

theorem filter_with_index_oversized:
  "filter_with_index (replicate 2147483649 (Person ''Butter'' ''Riolu'' 22)) even_idx =
     Inl Signed_Overflow"
  by (rule filter_with_index_overflow) (simp only: length_replicate)

text \<open>
  C3. \<^verbatim>\<open>reduce\<close> is the left fold of the reducer over the elements in ascending order,
  starting from the default-initialised accumulator, each step replacing the accumulator
  by what the reducer returns; the result is the final accumulator, read. For a reducer
  that takes the accumulator by value and a default-initialisation that yields \<open>d\<close>, this
  is \<open>foldl f d vs\<close>.
\<close>

theorem reduce_is_left_fold:
  "reduce default_initialized vs reducer =
     (case foldl (accumulate reducer) (Some default_initialized) vs of
        None \<Rightarrow> Inl Indeterminate_Read
      | Some Indeterminate \<Rightarrow> Inl Indeterminate_Read
      | Some (Value product) \<Rightarrow> Inr product)
   \<and> reduce (Value d) vs (by_value f) = Inr (foldl f d vs)"
proof -
  let ?s = "\<lparr>values = vs, result = default_initialized\<rparr>"
  have fold: "(case reduce_loop reducer vs ?s of Inl e \<Rightarrow> None | Inr s' \<Rightarrow> Some (result s')) =
      foldl (accumulate reducer) (Some default_initialized) vs"
    using reduce_loop_fold [of reducer vs ?s] by simp
  have "reduce default_initialized vs reducer =
     (case foldl (accumulate reducer) (Some default_initialized) vs of
        None \<Rightarrow> Inl Indeterminate_Read
      | Some Indeterminate \<Rightarrow> Inl Indeterminate_Read
      | Some (Value product) \<Rightarrow> Inr product)"
  proof (cases "reduce_loop reducer vs ?s")
    case (Inl e)
    then have "e = Indeterminate_Read" by (rule reduce_loop_error)
    with Inl fold [symmetric] show ?thesis by (simp add: reduce_def)
  next
    case (Inr s')
    with fold [symmetric] show ?thesis by (simp add: reduce_def)
  qed
  then show ?thesis by (simp add: reduce_by_value)
qed

text \<open>
  C4 on the code. On the empty sequence \<^verbatim>\<open>reduce\<close> returns the default-constructed value
  when \<^verbatim>\<open>Product\<close> is a class type. When \<^verbatim>\<open>Product\<close> is a numeric type, \<^verbatim>\<open>Product result;\<close>
  leaves \<^verbatim>\<open>result\<close> indeterminate and \<^verbatim>\<open>return result;\<close> reads it: the call does not return
  0.
\<close>

theorem reduce_empty:
  "reduce Indeterminate [] reducer = Inl Indeterminate_Read
   \<and> reduce (Value d) [] reducer = Inr d"
  by (simp add: reduce_def)

text \<open>
  C5, as amended. For every sequence \<open>vs\<close> of at most \<^verbatim>\<open>INT_MAX\<close> = 2147483647 elements, the
  index-aware \<^verbatim>\<open>filter\<close> tests each element with its position in \<open>vs\<close>: it keeps the
  elements that the predicate accepts when each is paired with its position. For every
  position \<open>k\<close> of \<open>vs\<close>, the \<^verbatim>\<open>int\<close> handed over has the value \<open>k\<close>, and the predicate that
  accepts the index \<open>k\<close> alone keeps exactly the element at position \<open>k\<close>, however many
  elements before it were rejected.
\<close>

theorem filter_with_index_passes_position:
  "length vs \<le> 2147483647 \<Longrightarrow>
     filter_with_index vs condition =
       Inr (map fst (filter (\<lambda>(item, k). condition item (of_nat k)) (zip vs [0..<length vs])))
     \<and> (\<forall>k < length vs.
          sint (of_nat k :: 32 word) = int k \<and> filter_with_index vs (index_is k) = Inr [vs ! k])"
proof -
  assume le: "length vs \<le> 2147483647"
  have "map fst (filter (\<lambda>(item, k). condition item (of_nat k)) (zip vs [0..<length vs])) =
      map (\<lambda>i. vs ! i) (filter (\<lambda>i. condition (vs ! i) (of_nat i)) [0..<length vs])"
    by (simp add: zip_positions filter_map comp_def)
  then have first: "filter_with_index vs condition =
      Inr (map fst (filter (\<lambda>(item, k). condition item (of_nat k)) (zip vs [0..<length vs])))"
    using filter_with_index_eq [OF le, of condition] by simp
  have second: "\<forall>k < length vs.
      sint (of_nat k :: 32 word) = int k \<and> filter_with_index vs (index_is k) = Inr [vs ! k]"
  proof (intro allI impI)
    fix k assume k: "k < length vs"
    then have s: "sint (of_nat k :: 32 word) = int k" using le by (simp add: sint_of_nat_idx)
    have "filter (\<lambda>i. index_is k (vs ! i) (of_nat i)) [0..<length vs] =
        filter (\<lambda>i. i = k) [0..<length vs]"
      using le by (intro filter_cong) (simp_all add: index_is_def sint_of_nat_idx)
    also have "\<dots> = [k]" using k by (simp add: filter_position_is)
    finally have "filter_with_index vs (index_is k) = Inr [vs ! k]"
      using filter_with_index_eq [OF le, of "index_is k"] by simp
    with s show "sint (of_nat k :: 32 word) = int k \<and>
        filter_with_index vs (index_is k) = Inr [vs ! k]" by simp
  qed
  from first second show ?thesis by blast
qed

text \<open>
  C5 at the six records of \<^verbatim>\<open>main\<close> and position 4: four elements are rejected before it.
\<close>

theorem filter_with_index_passes_position_witness:
  "length people \<le> 2147483647 \<and> 4 < length people
   \<and> filter_with_index people (index_is 4) = Inr [Person ''Looped'' ''Needs Help'' 18]"
proof -
  have le: "length people \<le> 2147483647" and lt: "4 < length people"
    by (simp_all add: people_def)
  have "people ! 4 = Person ''Looped'' ''Needs Help'' 18" by (simp add: people_def)
  moreover from filter_with_index_passes_position [OF le, of "index_is 4"] lt
  have "filter_with_index people (index_is 4) = Inr [people ! 4]" by blast
  ultimately show ?thesis using le lt by simp
qed

text \<open>
  C5 as stated fails at position 2147483648 of a sequence of 2147483649 elements: no
  \<^verbatim>\<open>int\<close> has that value, and the loop stops before it reaches the position.
\<close>

theorem filter_with_index_position_beyond_int:
  "2147483648 < length (replicate 2147483649 (Person ''Butter'' ''Riolu'' 22))
   \<and> filter_with_index (replicate 2147483649 (Person ''Butter'' ''Riolu'' 22))
       (index_is 2147483648) = Inl Signed_Overflow"
proof -
  have "(2147483647::nat) < length (replicate 2147483649 (Person ''Butter'' ''Riolu'' 22))"
    by (simp only: length_replicate)
  then have "filter_with_index (replicate 2147483649 (Person ''Butter'' ''Riolu'' 22))
       (index_is 2147483648) = Inl Signed_Overflow"
    by (rule filter_with_index_overflow)
  moreover have "(2147483648::nat) < length (replicate 2147483649 (Person ''Butter'' ''Riolu'' 22))"
    by (simp only: length_replicate)
  ultimately show ?thesis by (rule conjI [rotated])
qed

text \<open>
  C6 on the code. On the six records of \<^verbatim>\<open>main\<close>: the ages kept by the first filter are
  22, 21, 21, 24, 21; the second filter keeps positions 0, 2 and 4 of those; the map
  gives three strings numbered 1 to 3. The \<^verbatim>\<open>reduce\<close> of \<^verbatim>\<open>main\<close>, with \<^verbatim>\<open>Product = double\<close>,
  starts from an indeterminate accumulator, which its first call of the lambda reads:
  the total is not determined. Had the accumulator started at 0, the total would be 127.
\<close>

theorem main_scenario:
  "map age canDrinkAlcohol = [22, 21, 21, 24, 21]
   \<and> everyEvenPerson =
       Inr [Person ''Butter'' ''Riolu'' 22, Person ''Juke'' ''Duke'' 21,
            Person ''Land'' ''Woof'' 21]
   \<and> names = Inr [''1. Butter Riolu'', ''2. Juke Duke'', ''3. Land Woof'']
   \<and> totalAge = Inl Indeterminate_Read
   \<and> reduce (Value 0) people (by_value add_age) = Inr 127"
proof -
  have a: "map age canDrinkAlcohol = [22, 21, 21, 24, 21]" by code_simp
  have b: "everyEvenPerson =
       Inr [Person ''Butter'' ''Riolu'' 22, Person ''Juke'' ''Duke'' 21,
            Person ''Land'' ''Woof'' 21]" by code_simp
  have c: "names = Inr [''1. Butter Riolu'', ''2. Juke Duke'', ''3. Land Woof'']"
    by code_simp
  have d: "totalAge = Inl Indeterminate_Read"
    by (simp add: totalAge_def people_def reduce_def by_value_Indeterminate)
  have e: "reduce (Value 0) people (by_value add_age) = Inr 127"
    by (simp add: reduce_by_value people_def add_age_def)
  from a b c d e show ?thesis by (intro conjI)
qed

text \<open>
  C7. The element-only \<^verbatim>\<open>filter\<close> is idempotent: filtering its result again with the same
  predicate changes nothing.
\<close>

theorem filter_without_index_idempotent:
  "filter_without_index (filter_without_index vs p) p = filter_without_index vs p"
  by (simp add: filter_without_index_eq)

text \<open>
  C8. No loop of the five operations changes the caller's vector: in the frame each loop
  ends with, \<^verbatim>\<open>values\<close> is what it was in the frame the loop started from.
\<close>

theorem input_unchanged:
  "values (map_loop converter xs s) = values s
   \<and> values (filter_loop condition ys t) = values t
   \<and> (\<forall>u'. map_with_index_loop converter' idx u = Inr u' \<longrightarrow> values u' = values u)
   \<and> (\<forall>v'. filter_with_index_loop condition' idx' v = Inr v' \<longrightarrow> values v' = values v)
   \<and> (\<forall>w'. reduce_loop reducer zs w = Inr w' \<longrightarrow> values w' = values w)"
  by (simp add: map_loop_eq filter_loop_eq map_with_index_loop_values
        filter_with_index_loop_values reduce_loop_values)

text \<open>
  C8 at the six records of \<^verbatim>\<open>main\<close>: the three loops that may stop with an error return a
  frame there, and its \<^verbatim>\<open>values\<close> are the six records.
\<close>

theorem input_unchanged_witness:
  "(\<exists>u'. map_with_index_loop position_and_name 0 \<lparr>values = people, result = []\<rparr> = Inr u'
          \<and> values u' = people)
   \<and> (\<exists>v'. filter_with_index_loop even_idx 0 \<lparr>values = people, result = []\<rparr> = Inr v'
          \<and> values v' = people)
   \<and> (\<exists>w'. reduce_loop (by_value add_age) people \<lparr>values = people, result = Value 0\<rparr> = Inr w'
          \<and> values w' = people)"
proof -
  have le: "length people \<le> 2147483647" by (simp add: people_def)
  let ?u = "\<lparr>values = people, result = [] :: string list\<rparr>"
  let ?v = "\<lparr>values = people, result = [] :: Person list\<rparr>"
  let ?w = "\<lparr>values = people, result = Value (0::real)\<rparr>"
  note frame = input_unchanged [of "\<lambda>x. x" "[]" ?v "\<lambda>x. True" "[]" ?v
      position_and_name 0 ?u even_idx 0 ?v "by_value add_age" people ?w]
  obtain u' where u: "map_with_index_loop position_and_name 0 ?u = Inr u'"
    using map_with_index_loop_run [of ?u 0 position_and_name] le by simp
  obtain v' where v: "filter_with_index_loop even_idx 0 ?v = Inr v'"
    using filter_with_index_loop_run [of ?v 0 even_idx] le by simp
  obtain w' where w: "reduce_loop (by_value add_age) people ?w = Inr w'"
    using reduce_loop_by_value [of ?w 0 add_age people] by simp
  from frame u have "values u' = people" by simp
  moreover from frame v have "values v' = people" by simp
  moreover from frame w have "values w' = people" by simp
  ultimately show ?thesis using u v w by blast
qed

text \<open>
  C9. No call reads \<^verbatim>\<open>values\<close> out of range: neither counted loop, from any counter and
  any frame, stops with \<open>Out_Of_Range\<close>, and nor does any operation. (The range-based
  loops read through an iterator between \<^verbatim>\<open>begin()\<close> and \<^verbatim>\<open>end()\<close>.)
\<close>

theorem no_out_of_range:
  "map_with_index_loop converter idx s \<noteq> Inl Out_Of_Range
   \<and> filter_with_index_loop condition idx' t \<noteq> Inl Out_Of_Range
   \<and> map_with_index vs converter \<noteq> Inl Out_Of_Range
   \<and> filter_with_index ws condition \<noteq> Inl Out_Of_Range
   \<and> reduce default_initialized xs reducer \<noteq> Inl Out_Of_Range"
proof -
  have a: "map_with_index vs converter \<noteq> Inl Out_Of_Range"
    using map_with_index_loop_in_range [of converter 0 "\<lparr>values = vs, result = []\<rparr>"]
    by (auto simp add: map_with_index_def split: sum.splits)
  have b: "filter_with_index ws condition \<noteq> Inl Out_Of_Range"
    using filter_with_index_loop_in_range [of condition 0 "\<lparr>values = ws, result = []\<rparr>"]
    by (auto simp add: filter_with_index_def split: sum.splits)
  have c: "reduce default_initialized xs reducer \<noteq> Inl Out_Of_Range"
    by (auto simp add: reduce_def split: sum.splits object.splits dest: reduce_loop_error)
  from a b c show ?thesis
    by (simp add: map_with_index_loop_in_range filter_with_index_loop_in_range)
qed

text \<open>
  C10. With a reducer that takes the accumulator by reference, reads it, stores into it
  and returns a value, \<^verbatim>\<open>reduce\<close> returns what the pure left fold of the returned values
  returns: what the reducer stored through the reference is overwritten by the
  assignment. It is the same result as with the reducer that takes the accumulator by
  value and returns the same value.
\<close>

theorem reduce_by_reference_is_pure_fold:
  "reduce (Value d) vs (by_reference f) = Inr (pure_left_fold (\<lambda>a x. fst (f a x)) d vs)
   \<and> reduce default_initialized vs (by_reference f) =
       reduce default_initialized vs (by_value (\<lambda>a x. fst (f a x)))"
proof -
  have a: "reduce (Value d) vs (by_reference f) =
      Inr (pure_left_fold (\<lambda>a x. fst (f a x)) d vs)" for d
    by (simp add: reduce_def reduce_loop_by_reference)
  have b: "reduce default_initialized vs (by_reference f) =
       reduce default_initialized vs (by_value (\<lambda>a x. fst (f a x)))"
  proof (cases default_initialized)
    case Indeterminate
    then show ?thesis
      by (simp add: reduce_Indeterminate_reading by_reference_Indeterminate by_value_Indeterminate)
  next
    case (Value d)
    then show ?thesis by (simp add: a reduce_by_value pure_left_fold_foldl)
  qed
  from a b show ?thesis by simp
qed

end
